theory Spec2Isabelle
  imports Main
begin

section \<open>Labels and case-insensitive comparison\<close>

text \<open>
  Labels are Python strings, modelled as \<open>string\<close>. The source compares labels with
  \<^verbatim>\<open>value.lower() == name.lower()\<close>; \<open>lower\<close> is \<^verbatim>\<open>str.lower\<close> on the ASCII
  letters and leaves every other character as it is, where Python also folds letters
  outside ASCII. The general theorems below use nothing about \<open>lower\<close> except that it is
  a function, and the examples use ASCII letters only.
\<close>

definition lower_char :: "char \<Rightarrow> char" where
  "lower_char c =
     (case map_of (zip ''ABCDEFGHIJKLMNOPQRSTUVWXYZ'' ''abcdefghijklmnopqrstuvwxyz'') c of
        None \<Rightarrow> c
      | Some l \<Rightarrow> l)"

definition lower :: "string \<Rightarrow> string" where
  "lower s = map lower_char s"

section \<open>The tree widget\<close>

text \<open>
  \<^verbatim>\<open>self.tree\<close> is a \<^verbatim>\<open>ttk.Treeview\<close>. The source only ever inserts items at the
  root (services) and directly below a root item (usernames), always at \<^verbatim>\<open>END\<close>, and
  reads nothing of an item but its \<^verbatim>\<open>text\<close>. The widget's content is therefore a list
  of top-level items in display order, each with its text and the texts of its children
  in display order. An item identifier is only used inside the call that obtained it, so
  the identifier of a top-level item is modelled by its position; Python's \<^verbatim>\<open>None\<close> is
  \<open>None\<close>.
\<close>

type_synonym treeview = "(string \<times> string list) list"

text \<open>\<^verbatim>\<open>tree.get_children()\<close>: the texts of the top-level items, by position.\<close>

definition get_children_root :: "treeview \<Rightarrow> string list" where
  "get_children_root tree = map fst tree"

text \<open>\<^verbatim>\<open>tree.get_children(service_id)\<close>: the texts of the children of one top-level item.\<close>

definition get_children :: "treeview \<Rightarrow> nat \<Rightarrow> string list" where
  "get_children tree service_id =
     (if service_id < length tree then snd (tree ! service_id) else [])"

text \<open>\<^verbatim>\<open>tree.insert(ROOT, END, text=service)\<close>: returns the new identifier and the widget.\<close>

definition insert_root :: "treeview \<Rightarrow> string \<Rightarrow> nat \<times> treeview" where
  "insert_root tree service = (length tree, tree @ [(service, [])])"

text \<open>\<^verbatim>\<open>tree.insert(service_id, END, text=username)\<close>.\<close>

definition insert_child :: "treeview \<Rightarrow> nat \<Rightarrow> string \<Rightarrow> treeview" where
  "insert_child tree service_id username =
     (if service_id < length tree
      then tree[service_id := (fst (tree ! service_id), snd (tree ! service_id) @ [username])]
      else tree)"

text \<open>\<^verbatim>\<open>tree.delete(service_id)\<close> on a top-level item: the item goes, with its children.\<close>

definition delete_root :: "treeview \<Rightarrow> nat \<Rightarrow> treeview" where
  "delete_root tree service_id = take service_id tree @ drop (Suc service_id) tree"

text \<open>
  The loop shared by \<^verbatim>\<open>get_service_id\<close> and \<^verbatim>\<open>get_username_id\<close>: the first item
  whose text equals \<open>value\<close> up to case; falling off the end of the loop returns \<^verbatim>\<open>None\<close>.
\<close>

fun first_match :: "string \<Rightarrow> string list \<Rightarrow> nat option" where
  "first_match value [] = None"
| "first_match value (name # names) =
     (if lower value = lower name then Some 0
      else map_option Suc (first_match value names))"

definition get_service_id :: "treeview \<Rightarrow> string \<Rightarrow> nat option" where
  "get_service_id tree value = first_match value (get_children_root tree)"

definition get_username_id :: "treeview \<Rightarrow> nat \<Rightarrow> string \<Rightarrow> nat option" where
  "get_username_id tree service_id username =
     first_match username (get_children tree service_id)"

definition add_username :: "treeview \<Rightarrow> string \<Rightarrow> string \<Rightarrow> treeview" where
  "add_username tree service username =
     (let (service_id, tree1) =
            (case get_service_id tree service of
               None \<Rightarrow> insert_root tree service
             | Some i \<Rightarrow> (i, tree))
      in if get_username_id tree1 service_id username = None
         then insert_child tree1 service_id username
         else tree1)"

text \<open>
  The loop of \<^verbatim>\<open>del_username\<close> runs over the tuple of children taken before the loop
  and deletes every child whose text equals \<open>username\<close> up to case; what it leaves are
  the other children, in their order.
\<close>

fun del_accounts :: "string \<Rightarrow> string list \<Rightarrow> string list" where
  "del_accounts username [] = []"
| "del_accounts username (account # accounts) =
     (if lower account \<noteq> lower username then account # del_accounts username accounts
      else del_accounts username accounts)"

definition del_username :: "treeview \<Rightarrow> string \<Rightarrow> string \<Rightarrow> treeview" where
  "del_username tree service username =
     (case get_service_id tree service of
        None \<Rightarrow> tree
      | Some service_id \<Rightarrow>
          (let tree1 = tree[service_id :=
                         (fst (tree ! service_id),
                          del_accounts username (get_children tree service_id))]
           in if length (get_children tree1 service_id) = 0
              then delete_root tree1 service_id
              else tree1))"

subsection \<open>The mirror document\<close>

text \<open>
  A Python \<^verbatim>\<open>dict\<close> from service names to lists of usernames, as the list of its items
  in insertion order. \<^verbatim>\<open>tree.update({service: accounts})\<close> replaces the value of a key
  already there, in place, and appends a new key.
\<close>

type_synonym document = "(string \<times> string list) list"

fun dict_update :: "document \<Rightarrow> string \<Rightarrow> string list \<Rightarrow> document" where
  "dict_update [] key val = [(key, val)]"
| "dict_update ((k, v) # items) key val =
     (if k = key then (k, val) # items else (k, v) # dict_update items key val)"

fun get_tree_loop :: "document \<Rightarrow> treeview \<Rightarrow> document" where
  "get_tree_loop doc [] = doc"
| "get_tree_loop doc ((service, accounts) # service_ids) =
     get_tree_loop (dict_update doc service accounts) service_ids"

definition get_tree :: "treeview \<Rightarrow> document" where
  "get_tree tree = get_tree_loop [] tree"

fun add_usernames :: "treeview \<Rightarrow> string \<Rightarrow> string list \<Rightarrow> treeview" where
  "add_usernames tree key [] = tree"
| "add_usernames tree key (item # items) = add_usernames (add_username tree key item) key items"

fun set_tree :: "treeview \<Rightarrow> document \<Rightarrow> treeview" where
  "set_tree tree [] = tree"
| "set_tree tree ((key, val) # cache) = set_tree (add_usernames tree key val) cache"

subsection \<open>The invariants of the data model\<close>

definition unique_services :: "treeview \<Rightarrow> bool" where
  "unique_services tree = distinct (map lower (map fst tree))"

definition unique_usernames :: "treeview \<Rightarrow> bool" where
  "unique_usernames tree = list_all (\<lambda>(name, accounts). distinct (map lower accounts)) tree"

definition no_childless :: "treeview \<Rightarrow> bool" where
  "no_childless tree = list_all (\<lambda>(name, accounts). accounts \<noteq> []) tree"

text \<open>The entry \<open>(service, username)\<close> is in the tree, as the source's own lookups find it.\<close>

definition has_account :: "treeview \<Rightarrow> string \<Rightarrow> string \<Rightarrow> bool" where
  "has_account tree service username =
     (case get_service_id tree service of
        None \<Rightarrow> False
      | Some service_id \<Rightarrow> get_username_id tree service_id username \<noteq> None)"

text \<open>
  The trees the program can build: the widget starts empty, and nothing touches it but
  \<^verbatim>\<open>add_username\<close> (from \<^verbatim>\<open>set_tree\<close> and \<^verbatim>\<open>add_account\<close>) and \<^verbatim>\<open>del_username\<close>
  (from \<^verbatim>\<open>del_account\<close>).
\<close>

inductive built_tree :: "treeview \<Rightarrow> bool" where
  built_empty: "built_tree []"
| built_add: "built_tree t \<Longrightarrow> built_tree (add_username t service username)"
| built_del: "built_tree t \<Longrightarrow> built_tree (del_username t service username)"

section \<open>The shared application state and the account operations\<close>

text \<open>
  Every frame is a \<^verbatim>\<open>SharedState\<close>, so the methods of \<^verbatim>\<open>ToolboxFrame\<close> read and
  write one set of fields (see the section on \<^verbatim>\<open>SharedState.__init__\<close> below). The
  record holds the four \<^verbatim>\<open>StringVar\<close>s of \<^verbatim>\<open>Variables\<close>, the clipboard of the root
  window (\<open>None\<close>: it holds no text), the tree widget, and the two stores outside the
  process: the keyring and the cache file \<^verbatim>\<open>keyvault.json\<close> (\<open>None\<close>: the file does not
  exist). \<open>keyring_calls\<close> and \<open>cache_writes\<close> record, in order, every call made to the
  keyring and every document written to the cache file.
\<close>

datatype keyring_call =
    GetPassword string string
  | SetPassword string string string
  | DeletePassword string string

datatype keyring_error = PasswordDeleteError

record shared_state =
  var_service :: string
  var_username :: string
  var_password :: string
  var_notification :: string
  clipboard :: "string option"
  tree :: treeview
  keyring :: "string \<times> string \<rightharpoonup> string"
  keyring_calls :: "keyring_call list"
  cache_file :: "document option"
  cache_writes :: "document list"

text \<open>
  Modelled from the spec: the Secret Store Gateway, which is the \<^verbatim>\<open>keyring\<close> package and
  not part of the sources. It stores one secret for each pair of service and username:
  \<^verbatim>\<open>get_password\<close> returns the secret or \<^verbatim>\<open>None\<close>, \<^verbatim>\<open>set_password\<close> overwrites, and
  \<^verbatim>\<open>delete_password\<close> raises \<^verbatim>\<open>PasswordDeleteError\<close> when there is no secret to delete.
  A failure of the credential store itself is not modelled.
\<close>

definition keyring_get_password ::
    "shared_state \<Rightarrow> string \<Rightarrow> string \<Rightarrow> string option \<times> shared_state" where
  "keyring_get_password s service username =
     (keyring s (service, username),
      s\<lparr>keyring_calls := keyring_calls s @ [GetPassword service username]\<rparr>)"

definition keyring_set_password ::
    "shared_state \<Rightarrow> string \<Rightarrow> string \<Rightarrow> string \<Rightarrow> shared_state" where
  "keyring_set_password s service username password =
     s\<lparr>keyring := (keyring s)((service, username) \<mapsto> password),
       keyring_calls := keyring_calls s @ [SetPassword service username password]\<rparr>"

definition keyring_delete_password ::
    "shared_state \<Rightarrow> string \<Rightarrow> string \<Rightarrow> keyring_error option \<times> shared_state" where
  "keyring_delete_password s service username =
     (let s1 = s\<lparr>keyring_calls := keyring_calls s @ [DeletePassword service username]\<rparr>
      in case keyring s (service, username) of
           None \<Rightarrow> (Some PasswordDeleteError, s1)
         | Some secret \<Rightarrow> (None, s1\<lparr>keyring := (keyring s)((service, username) := None)\<rparr>))"

text \<open>\<^verbatim>\<open>show_info\<close>, \<^verbatim>\<open>show_warning\<close>, \<^verbatim>\<open>show_error\<close>: nothing happens for an empty message.\<close>

definition show_info :: "shared_state \<Rightarrow> string \<Rightarrow> shared_state" where
  "show_info s msg =
     (if length msg > 0 then s\<lparr>var_notification := ''[INFO]: '' @ msg\<rparr> else s)"

definition show_warning :: "shared_state \<Rightarrow> string \<Rightarrow> shared_state" where
  "show_warning s msg =
     (if length msg > 0 then s\<lparr>var_notification := ''[WARNING]: '' @ msg\<rparr> else s)"

definition show_error :: "shared_state \<Rightarrow> string \<Rightarrow> shared_state" where
  "show_error s msg =
     (if length msg > 0 then s\<lparr>var_notification := ''[ERROR]: '' @ msg\<rparr> else s)"

text \<open>
  \<^verbatim>\<open>set_cache\<close> serialises the document and overwrites the cache file with it; the file
  then holds exactly that document.
\<close>

definition set_cache :: "shared_state \<Rightarrow> document \<Rightarrow> shared_state" where
  "set_cache s cache = s\<lparr>cache_file := Some cache, cache_writes := cache_writes s @ [cache]\<rparr>"

definition add_account :: "shared_state \<Rightarrow> string \<Rightarrow> string \<Rightarrow> shared_state" where
  "add_account s service username =
     (let s1 = s\<lparr>tree := add_username (tree s) service username\<rparr>;
          data = get_tree (tree s1)
      in set_cache s1 data)"

definition del_account :: "shared_state \<Rightarrow> string \<Rightarrow> string \<Rightarrow> shared_state" where
  "del_account s service username =
     (let s1 = s\<lparr>tree := del_username (tree s) service username\<rparr>;
          data = get_tree (tree s1)
      in set_cache s1 data)"

text \<open>Fetch: \<^verbatim>\<open>ToolboxFrame.get_password\<close>. The first statement is \<^verbatim>\<open>del self.password\<close>.\<close>

definition get_password :: "shared_state \<Rightarrow> shared_state" where
  "get_password s =
     (let s1 = s\<lparr>var_password := ''''\<rparr>
      in if length (var_service s1) > 0 \<and> length (var_username s1) > 0
         then (case keyring_get_password s1 (var_service s1) (var_username s1) of
                 (Some v, s2) \<Rightarrow>
                   (let s3 = s2\<lparr>var_password := v\<rparr>;
                        s4 = s3\<lparr>clipboard := Some v\<rparr>;
                        s5 = add_account s4 (var_service s4) (var_username s4)
                    in show_info s5 ''Password retrieved from keyring.'')
               | (None, s2) \<Rightarrow>
                   (let s3 = del_account s2 (var_service s2) (var_username s2)
                    in show_warning s3 ''Password not found!''))
         else show_warning s1 ''Service and username cannot be empty!'')"

text \<open>Save: \<^verbatim>\<open>ToolboxFrame.set_password\<close>.\<close>

definition set_password :: "shared_state \<Rightarrow> shared_state" where
  "set_password s =
     (if length (var_service s) > 0 \<and> length (var_username s) > 0 \<and> length (var_password s) > 0
      then (let s1 = keyring_set_password s (var_service s) (var_username s) (var_password s);
                s2 = add_account s1 (var_service s1) (var_username s1);
                s3 = s2\<lparr>clipboard := Some (var_password s2)\<rparr>
            in show_info s3 ''Password saved to keyring.'')
      else show_warning s ''Service, username and password cannot be empty!'')"

text \<open>
  Delete: \<^verbatim>\<open>ToolboxFrame.del_password\<close>. \<open>del_password_try\<close> is the \<^verbatim>\<open>try\<close> statement with
  its \<^verbatim>\<open>except\<close> and \<^verbatim>\<open>else\<close> branches, \<open>del_password_finally\<close> its \<^verbatim>\<open>finally\<close> block.
\<close>

definition del_password_try :: "shared_state \<Rightarrow> shared_state" where
  "del_password_try s =
     (case keyring_delete_password s (var_service s) (var_username s) of
        (Some PasswordDeleteError, s1) \<Rightarrow> show_warning s1 ''Password not found in keyring!''
      | (None, s1) \<Rightarrow> show_info s1 ''Password deleted from keyring.'')"

definition del_password_finally :: "shared_state \<Rightarrow> shared_state" where
  "del_password_finally s =
     (let s1 = del_account s (var_service s) (var_username s)
      in s1\<lparr>var_service := '''', var_username := '''', var_password := ''''\<rparr>)"

definition del_password :: "shared_state \<Rightarrow> shared_state" where
  "del_password s =
     (if length (var_service s) > 0 \<and> length (var_username s) > 0
      then del_password_finally (del_password_try s)
      else show_warning s ''Service and username cannot be empty!'')"

text \<open>
  The state when the window opens with no cache file: \<^verbatim>\<open>get_cache\<close> returns an empty
  dictionary, so \<^verbatim>\<open>set_tree\<close> leaves the tree empty; the four variables are empty strings.
\<close>

definition initial_state :: shared_state where
  "initial_state =
     \<lparr>var_service = '''', var_username = '''', var_password = '''', var_notification = '''',
      clipboard = None, tree = [], keyring = Map.empty, keyring_calls = [],
      cache_file = None, cache_writes = []\<rparr>"

text \<open>
  Two states used as examples. In \<open>stale_state\<close> the tree shows \<open>("svc", "u1")\<close>, the
  fields name that entry, and the keyring holds no secret for it. \<open>typed_state\<close> is the
  state after the user has typed \<open>"svc"\<close>, \<open>"u1"\<close>, \<open>"p1"\<close> into the empty window.
\<close>

definition stale_state :: shared_state where
  "stale_state =
     initial_state\<lparr>var_service := ''svc'', var_username := ''u1'',
       tree := [(''svc'', [''u1''])]\<rparr>"

definition typed_state :: shared_state where
  "typed_state =
     initial_state\<lparr>var_service := ''svc'', var_username := ''u1'', var_password := ''p1''\<rparr>"

section \<open>One state for every holder: \<^verbatim>\<open>SharedState.__init__\<close>\<close>

text \<open>
  \<^verbatim>\<open>__shared__\<close> is a class attribute bound once to a dictionary; \<^verbatim>\<open>__init__\<close> merges the
  instance's own \<^verbatim>\<open>__dict__\<close> into it and then rebinds the instance's \<^verbatim>\<open>__dict__\<close> to it.
  What matters is which objects are the same, so objects live in an explicit store: every
  dictionary has an address, every object has the address of its \<^verbatim>\<open>__dict__\<close> (an address
  that is not an object has none), and an attribute's value is the address of the object
  it refers to. A \<^verbatim>\<open>StringVar\<close> holds a string. Addresses below \<open>next_addr\<close> are allocated.
\<close>

type_synonym addr = nat

record heap =
  dict_store :: "addr \<Rightarrow> (string \<rightharpoonup> addr)"
  obj_dict :: "addr \<rightharpoonup> addr"
  strvar :: "addr \<Rightarrow> string"
  next_addr :: addr

text \<open>The address of the dictionary that \<^verbatim>\<open>SharedState.__shared__\<close> is bound to.\<close>

definition shared :: addr where
  "shared = 0"

text \<open>The store once the class body has run: the shared dictionary, empty, and no object.\<close>

definition initial_heap :: heap where
  "initial_heap =
     \<lparr>dict_store = (\<lambda>d. Map.empty), obj_dict = Map.empty, strvar = (\<lambda>v. ''''),
      next_addr = Suc shared\<rparr>"

text \<open>A new instance: a fresh object with a fresh, empty \<^verbatim>\<open>__dict__\<close>.\<close>

definition new_object :: "heap \<Rightarrow> addr \<times> heap" where
  "new_object h =
     (let self = next_addr h; d = Suc (next_addr h)
      in (self, h\<lparr>dict_store := (dict_store h)(d := Map.empty),
                   obj_dict := (obj_dict h)(self \<mapsto> d),
                   next_addr := Suc (Suc (next_addr h))\<rparr>))"

text \<open>
  \<^verbatim>\<open>self.__shared__.update(self.__dict__)\<close>, where a key of the instance's dictionary
  overwrites the same key of the shared one, then \<^verbatim>\<open>self.__dict__ = self.__shared__\<close>.
\<close>

definition SharedState_init :: "heap \<Rightarrow> addr \<Rightarrow> heap" where
  "SharedState_init h self =
     (case obj_dict h self of
        None \<Rightarrow> h
      | Some d \<Rightarrow>
          (let h1 = h\<lparr>dict_store := (dict_store h)
                         (shared := dict_store h shared ++ dict_store h d)\<rparr>
           in h1\<lparr>obj_dict := (obj_dict h1)(self \<mapsto> shared)\<rparr>))"

text \<open>
  Every constructor of the source (\<^verbatim>\<open>KeyVault\<close>, \<^verbatim>\<open>TreeFrame\<close>, \<^verbatim>\<open>AccountFrame\<close>,
  \<^verbatim>\<open>ClearFrame\<close>, \<^verbatim>\<open>ToolboxFrame\<close>, \<^verbatim>\<open>NotificationFrame\<close>) starts with
  \<^verbatim>\<open>super().__init__()\<close> on the new instance, before it sets any attribute.
\<close>

definition construct :: "heap \<Rightarrow> addr \<times> heap" where
  "construct h = (case new_object h of (self, h1) \<Rightarrow> (self, SharedState_init h1 self))"

text \<open>
  Plain attributes (\<^verbatim>\<open>root\<close>, \<^verbatim>\<open>variables\<close>, \<^verbatim>\<open>icons\<close>, \<^verbatim>\<open>style\<close>, \<^verbatim>\<open>tree\<close>, \<^verbatim>\<open>cache\<close>)
  are read from and written to the instance's \<^verbatim>\<open>__dict__\<close>; \<open>None\<close> is AttributeError.
\<close>

definition getattr :: "heap \<Rightarrow> addr \<Rightarrow> string \<Rightarrow> addr option" where
  "getattr h self name =
     (case obj_dict h self of
        None \<Rightarrow> None
      | Some d \<Rightarrow> dict_store h d name)"

definition setattr :: "heap \<Rightarrow> addr \<Rightarrow> string \<Rightarrow> addr \<Rightarrow> heap" where
  "setattr h self name v =
     (case obj_dict h self of
        None \<Rightarrow> h
      | Some d \<Rightarrow> h\<lparr>dict_store := (dict_store h)(d := (dict_store h d)(name \<mapsto> v))\<rparr>)"

text \<open>
  The properties \<^verbatim>\<open>service\<close>, \<^verbatim>\<open>username\<close>, \<^verbatim>\<open>password\<close> and \<^verbatim>\<open>message\<close> go through
  \<^verbatim>\<open>self.variables\<close> to a \<^verbatim>\<open>StringVar\<close>: \<^verbatim>\<open>self.variables.<name>.get()\<close> and
  \<^verbatim>\<open>self.variables.<name>.set(value)\<close>.
\<close>

definition get_var :: "heap \<Rightarrow> addr \<Rightarrow> string \<Rightarrow> string option" where
  "get_var h self name =
     (case getattr h self ''variables'' of
        None \<Rightarrow> None
      | Some variables \<Rightarrow>
          (case getattr h variables name of
             None \<Rightarrow> None
           | Some var \<Rightarrow> Some (strvar h var)))"

definition set_var :: "heap \<Rightarrow> addr \<Rightarrow> string \<Rightarrow> string \<Rightarrow> heap option" where
  "set_var h self name val =
     (case getattr h self ''variables'' of
        None \<Rightarrow> None
      | Some variables \<Rightarrow>
          (case getattr h variables name of
             None \<Rightarrow> None
           | Some var \<Rightarrow> Some (h\<lparr>strvar := (strvar h)(var := val)\<rparr>)))"

text \<open>A holder is initialised once its \<^verbatim>\<open>__dict__\<close> is the shared dictionary.\<close>

definition initialized :: "heap \<Rightarrow> addr \<Rightarrow> bool" where
  "initialized h self = (obj_dict h self = Some shared)"

text \<open>
  \<^verbatim>\<open>StringVar(master)\<close>: a fresh variable, holding the empty string. \<^verbatim>\<open>Variables(master)\<close>
  keeps \<^verbatim>\<open>master\<close> and creates the four variables in \<^verbatim>\<open>__post_init__\<close>.
\<close>

definition new_strvar :: "heap \<Rightarrow> addr \<times> heap" where
  "new_strvar h =
     (next_addr h, h\<lparr>strvar := (strvar h)(next_addr h := ''''), next_addr := Suc (next_addr h)\<rparr>)"

definition Variables_init :: "heap \<Rightarrow> addr \<Rightarrow> addr \<times> heap" where
  "Variables_init h master =
     (case new_object h of (self, h0) \<Rightarrow>
      case new_strvar (setattr h0 self ''master'' master) of (service, h1) \<Rightarrow>
      case new_strvar (setattr h1 self ''service'' service) of (username, h2) \<Rightarrow>
      case new_strvar (setattr h2 self ''username'' username) of (password, h3) \<Rightarrow>
      case new_strvar (setattr h3 self ''password'' password) of (notification, h4) \<Rightarrow>
        (self, setattr h4 self ''notification'' notification))"

text \<open>
  The start of \<^verbatim>\<open>KeyVault.__init__\<close>: \<^verbatim>\<open>super().__init__()\<close>, \<^verbatim>\<open>self.root = master\<close>,
  \<^verbatim>\<open>self.variables = Variables(master)\<close>. The attributes \<^verbatim>\<open>icons\<close>, \<^verbatim>\<open>style\<close> and
  \<^verbatim>\<open>cache\<close> are set in the same way after these; the frames are constructed after that.
\<close>

definition KeyVault_init :: "heap \<Rightarrow> addr \<Rightarrow> addr \<times> heap" where
  "KeyVault_init h master =
     (case construct h of (self, h1) \<Rightarrow>
      case Variables_init (setattr h1 self ''root'' master) master of (variables, h2) \<Rightarrow>
        (self, setattr h2 self ''variables'' variables))"

section \<open>Facts about the tree operations\<close>

text \<open>The operations, read off the head of the list: the form the inductions below use.\<close>

lemma get_service_id_Nil: "get_service_id [] s = None"
  by (simp add: get_service_id_def get_children_root_def)

lemma get_service_id_Cons:
  "get_service_id ((n, as) # t) s =
     (if lower s = lower n then Some 0 else map_option Suc (get_service_id t s))"
  by (simp add: get_service_id_def get_children_root_def)

lemma get_service_id_less: "get_service_id t s = Some i \<Longrightarrow> i < length t"
  by (induction t arbitrary: i) (auto simp: get_service_id_Nil get_service_id_Cons split: if_splits)

lemma add_username_Nil: "add_username [] s u = [(s, [u])]"
  by (simp add: add_username_def get_service_id_Nil insert_root_def get_username_id_def
      get_children_def insert_child_def)

lemma add_username_Cons:
  "add_username ((n, as) # t) s u =
     (if lower s = lower n
      then (n, if first_match u as = None then as @ [u] else as) # t
      else (n, as) # add_username t s u)"
  by (auto simp: add_username_def get_service_id_Cons insert_root_def get_username_id_def
      get_children_def insert_child_def nth_append dest: get_service_id_less split: option.splits)

lemma del_username_Nil: "del_username [] s u = []"
  by (simp add: del_username_def get_service_id_Nil)

lemma del_username_Cons:
  "del_username ((n, as) # t) s u =
     (if lower s = lower n
      then (if del_accounts u as = [] then t else (n, del_accounts u as) # t)
      else (n, as) # del_username t s u)"
  by (auto simp: del_username_def get_service_id_Cons get_children_def delete_root_def Let_def
      dest: get_service_id_less split: option.splits)

lemma has_account_Nil: "has_account [] s u = False"
  by (simp add: has_account_def get_service_id_Nil)

lemma has_account_Cons:
  "has_account ((n, as) # t) s u =
     (if lower s = lower n then first_match u as \<noteq> None else has_account t s u)"
  by (auto simp: has_account_def get_service_id_Cons get_username_id_def get_children_def
      dest: get_service_id_less split: option.splits)

lemma first_match_None: "first_match v xs = None \<longleftrightarrow> lower v \<notin> set (map lower xs)"
  by (induction xs) auto

lemma del_accounts_filter: "del_accounts u as = filter (\<lambda>a. lower a \<noteq> lower u) as"
  by (induction as) auto

subsection \<open>No service without a username\<close>

lemma no_childless_add_username: "no_childless t \<Longrightarrow> no_childless (add_username t s u)"
  by (induction t) (auto simp: no_childless_def add_username_Nil add_username_Cons)

lemma no_childless_del_username: "no_childless t \<Longrightarrow> no_childless (del_username t s u)"
  by (induction t) (auto simp: no_childless_def del_username_Nil del_username_Cons)

lemma no_childless_add_usernames: "no_childless t \<Longrightarrow> no_childless (add_usernames t k items)"
  by (induction items arbitrary: t) (auto simp: no_childless_add_username)

lemma no_childless_set_tree: "no_childless t \<Longrightarrow> no_childless (set_tree t doc)"
  by (induction t doc rule: set_tree.induct) (auto simp: no_childless_add_usernames)

subsection \<open>Labels unique up to case\<close>

lemma services_add_username:
  "set (map lower (map fst (add_username t s u))) = insert (lower s) (set (map lower (map fst t)))"
proof (induction t)
  case Nil
  then show ?case by (simp add: add_username_Nil)
next
  case (Cons a t)
  obtain n as where a: "a = (n, as)" by (cases a)
  show ?case
  proof (cases "lower s = lower n")
    case True
    then show ?thesis unfolding a by (simp add: add_username_Cons insert_absorb)
  next
    case False
    then show ?thesis unfolding a using Cons.IH by (simp add: add_username_Cons insert_commute)
  qed
qed

lemma unique_services_add_username:
  "unique_services t \<Longrightarrow> unique_services (add_username t s u)"
proof (induction t)
  case Nil
  then show ?case by (simp add: unique_services_def add_username_Nil)
next
  case (Cons a t)
  obtain n as where a: "a = (n, as)" by (cases a)
  show ?case
  proof (cases "lower s = lower n")
    case True
    with Cons.prems a show ?thesis by (simp add: unique_services_def add_username_Cons)
  next
    case False
    from Cons.prems a have "unique_services t" and "lower n \<notin> set (map lower (map fst t))"
      by (simp_all add: unique_services_def)
    with Cons.IH False a show ?thesis
      using services_add_username [of t s u]
      by (simp add: unique_services_def add_username_Cons)
  qed
qed

lemma unique_usernames_add_username:
  "unique_usernames t \<Longrightarrow> unique_usernames (add_username t s u)"
  by (induction t) (auto simp: unique_usernames_def add_username_Nil add_username_Cons first_match_None)

lemma services_del_username:
  "set (map fst (del_username t s u)) \<subseteq> set (map fst t)"
proof (induction t)
  case Nil
  then show ?case by (simp add: del_username_Nil)
next
  case (Cons a t)
  obtain n as where a: "a = (n, as)" by (cases a)
  show ?case unfolding a using Cons.IH
    by (simp add: del_username_Cons subset_insertI2)
qed

lemma unique_services_del_username:
  "unique_services t \<Longrightarrow> unique_services (del_username t s u)"
proof (induction t)
  case Nil
  then show ?case by (simp add: del_username_Nil)
next
  case (Cons a t)
  obtain n as where a: "a = (n, as)" by (cases a)
  from Cons.prems a have t: "unique_services t" and n: "lower n \<notin> lower ` fst ` set t"
    by (auto simp: unique_services_def)
  have "lower ` fst ` set (del_username t s u) \<subseteq> lower ` fst ` set t"
    using services_del_username [of t s u] by (simp only: set_map) blast
  with n have "lower n \<notin> lower ` fst ` set (del_username t s u)"
    by blast
  with Cons.IH [OF t] t n a show ?case
    by (auto simp: unique_services_def del_username_Cons)
qed

lemma unique_usernames_del_username:
  "unique_usernames t \<Longrightarrow> unique_usernames (del_username t s u)"
  by (induction t)
     (auto simp: unique_usernames_def del_username_Nil del_username_Cons del_accounts_filter
           distinct_map_filter)

lemma unique_add_usernames:
  "unique_services t \<and> unique_usernames t \<Longrightarrow>
   unique_services (add_usernames t k items) \<and> unique_usernames (add_usernames t k items)"
  by (induction items arbitrary: t)
     (auto simp: unique_services_add_username unique_usernames_add_username)

lemma unique_set_tree:
  "unique_services t \<and> unique_usernames t \<Longrightarrow>
   unique_services (set_tree t doc) \<and> unique_usernames (set_tree t doc)"
proof (induction t doc rule: set_tree.induct)
  case (1 t)
  then show ?case by simp
next
  case (2 t k v doc)
  then show ?case using unique_add_usernames [of t k v] by simp
qed

subsection \<open>Which entries the tree holds after an operation\<close>

lemma has_account_services: "has_account t s u \<Longrightarrow> lower s \<in> lower ` fst ` set t"
  by (induction t) (auto simp: has_account_Nil has_account_Cons split: if_splits)

lemma has_account_add_username_iff:
  "has_account (add_username t s u) s' u' =
     (has_account t s' u' \<or> (lower s' = lower s \<and> lower u' = lower u))"
proof (induction t)
  case Nil
  then show ?case by (auto simp: add_username_Nil has_account_Nil has_account_Cons)
next
  case (Cons a t)
  obtain n as where a: "a = (n, as)" by (cases a)
  show ?case
  proof (cases "lower s = lower n")
    case True
    then show ?thesis unfolding a
      by (auto simp: add_username_Cons has_account_Cons first_match_None)
  next
    case False
    then show ?thesis unfolding a using Cons.IH
      by (auto simp: add_username_Cons has_account_Cons)
  qed
qed

lemma has_account_del_username_iff:
  "unique_services t \<Longrightarrow>
   has_account (del_username t s u) s' u' =
     (has_account t s' u' \<and> \<not> (lower s' = lower s \<and> lower u' = lower u))"
proof (induction t)
  case Nil
  then show ?case by (simp add: del_username_Nil has_account_Nil)
next
  case (Cons a t)
  obtain n as where a: "a = (n, as)" by (cases a)
  from Cons.prems a have t: "unique_services t" and n: "lower n \<notin> lower ` fst ` set t"
    by (auto simp: unique_services_def)
  show ?case
  proof (cases "lower s = lower n")
    case True
    note s = True
    show ?thesis
    proof (cases "lower s' = lower n")
      case True
      with n have no: "\<not> has_account t s' u'" using has_account_services [of t s' u'] by auto
      show ?thesis
      proof (cases "del_accounts u as = []")
        case True
        then have "\<forall>x\<in>set as. lower x = lower u"
          by (simp add: del_accounts_filter filter_empty_conv)
        with True s \<open>lower s' = lower n\<close> no show ?thesis unfolding a
          by (auto simp: del_username_Cons has_account_Cons first_match_None)
      next
        case False
        with s \<open>lower s' = lower n\<close> show ?thesis unfolding a
          by (auto simp: del_username_Cons has_account_Cons first_match_None del_accounts_filter)
      qed
    next
      case False
      with s show ?thesis unfolding a
        by (auto simp: del_username_Cons has_account_Cons)
    qed
  next
    case False
    with Cons.IH [OF t] show ?thesis unfolding a
      by (auto simp: del_username_Cons has_account_Cons)
  qed
qed

subsection \<open>Exporting and importing\<close>

lemma dict_update_new: "key \<notin> fst ` set doc \<Longrightarrow> dict_update doc key v = doc @ [(key, v)]"
  by (induction doc key v rule: dict_update.induct) auto

lemma get_tree_loop_distinct:
  "distinct (map fst (doc @ t)) \<Longrightarrow> get_tree_loop doc t = doc @ t"
proof (induction doc t rule: get_tree_loop.induct)
  case (1 doc)
  then show ?case by simp
next
  case (2 doc service accounts service_ids)
  then have "service \<notin> fst ` set doc" by auto
  then have "dict_update doc service accounts = doc @ [(service, accounts)]"
    by (rule dict_update_new)
  with 2 show ?case by simp
qed

lemma unique_services_distinct: "unique_services t \<Longrightarrow> distinct (map fst t)"
  unfolding unique_services_def by (rule distinct_map [THEN iffD1, THEN conjunct1])

lemma get_tree_unique: "unique_services t \<Longrightarrow> get_tree t = t"
  using get_tree_loop_distinct [of "[]" t] by (simp add: get_tree_def unique_services_distinct)

lemma add_username_append:
  "lower s \<notin> lower ` fst ` set acc \<Longrightarrow> add_username (acc @ t) s u = acc @ add_username t s u"
  by (induction acc) (auto simp: add_username_Cons)

lemma add_usernames_existing:
  "lower k \<notin> lower ` fst ` set acc \<Longrightarrow> distinct (map lower (as0 @ as)) \<Longrightarrow>
   add_usernames (acc @ [(k, as0)]) k as = acc @ [(k, as0 @ as)]"
proof (induction as arbitrary: as0)
  case Nil
  then show ?case by simp
next
  case (Cons a as)
  from Cons.prems have "first_match a as0 = None" by (auto simp: first_match_None)
  then have "add_username (acc @ [(k, as0)]) k a = acc @ [(k, as0 @ [a])]"
    using Cons.prems(1) by (simp add: add_username_append add_username_Cons)
  moreover have "distinct (map lower ((as0 @ [a]) @ as))" using Cons.prems(2) by simp
  ultimately show ?case using Cons.IH [OF Cons.prems(1), of "as0 @ [a]"] by simp
qed

lemma add_usernames_new:
  assumes "lower k \<notin> lower ` fst ` set acc" and "as \<noteq> []" and "distinct (map lower as)"
  shows "add_usernames acc k as = acc @ [(k, as)]"
proof -
  from assms(2) obtain a as' where as: "as = a # as'" by (cases as) auto
  have "add_username acc k a = acc @ [(k, [a])]"
    using add_username_append [OF assms(1), of "[]" a] by (simp add: add_username_Nil)
  then show ?thesis
    using add_usernames_existing [OF assms(1), of "[a]" as'] assms(3) by (simp add: as)
qed

lemma set_tree_append:
  "unique_services (acc @ t) \<Longrightarrow> unique_usernames t \<Longrightarrow> no_childless t \<Longrightarrow>
   set_tree acc t = acc @ t"
proof (induction t arbitrary: acc)
  case Nil
  then show ?case by simp
next
  case (Cons a t)
  obtain k as where a: "a = (k, as)" by (cases a)
  from Cons.prems a have k: "lower k \<notin> lower ` fst ` set acc"
    by (auto simp: unique_services_def)
  from Cons.prems a have as: "as \<noteq> []" "distinct (map lower as)"
    by (auto simp: no_childless_def unique_usernames_def)
  have step: "add_usernames acc k as = acc @ [(k, as)]"
    using add_usernames_new [OF k as] .
  from Cons.prems a have "unique_services ((acc @ [(k, as)]) @ t)" "unique_usernames t" "no_childless t"
    by (auto simp: unique_services_def no_childless_def unique_usernames_def)
  then have "set_tree (acc @ [(k, as)]) t = (acc @ [(k, as)]) @ t" by (rule Cons.IH)
  with step show ?case by (simp add: a)
qed

subsection \<open>Every tree the program builds satisfies the invariants\<close>

lemma built_tree_invariants:
  "built_tree t \<Longrightarrow> unique_services t \<and> unique_usernames t \<and> no_childless t"
proof (induction rule: built_tree.induct)
  case built_empty
  show ?case by (simp add: unique_services_def unique_usernames_def no_childless_def)
next
  case (built_add t service username)
  then show ?case
    by (simp add: unique_services_add_username unique_usernames_add_username
        no_childless_add_username)
next
  case (built_del t service username)
  then show ?case
    by (simp add: unique_services_del_username unique_usernames_del_username
        no_childless_del_username)
qed

section \<open>The tree projection: invariants and round trip\<close>

text \<open>
  C5. Round trip. For a tree that satisfies the invariants of the data model (service
  labels unique up to case, username labels unique up to case within each service, no
  service without a username), importing its exported document into an empty tree gives
  a tree whose exported document is the exported document of the original.
\<close>

theorem C5_import_export_roundtrip:
  "unique_services t \<Longrightarrow> unique_usernames t \<Longrightarrow> no_childless t \<Longrightarrow>
   get_tree (set_tree [] (get_tree t)) = get_tree t"
  using set_tree_append [of "[]" t] by (simp add: get_tree_unique)

theorem C5_import_export_roundtrip_witness:
  "unique_services [(''Mail'', [''bob'', ''alice'']), (''svc'', [''u1''])] \<and>
   unique_usernames [(''Mail'', [''bob'', ''alice'']), (''svc'', [''u1''])] \<and>
   no_childless [(''Mail'', [''bob'', ''alice'']), (''svc'', [''u1''])] \<and>
   get_tree (set_tree [] (get_tree [(''Mail'', [''bob'', ''alice'']), (''svc'', [''u1''])])) =
     get_tree [(''Mail'', [''bob'', ''alice'']), (''svc'', [''u1''])]"
proof -
  have h1: "unique_services [(''Mail'', [''bob'', ''alice'']), (''svc'', [''u1''])]"
    by (simp add: unique_services_def lower_def lower_char_def)
  have h2: "unique_usernames [(''Mail'', [''bob'', ''alice'']), (''svc'', [''u1''])]"
    by (simp add: unique_usernames_def lower_def lower_char_def)
  have h3: "no_childless [(''Mail'', [''bob'', ''alice'']), (''svc'', [''u1''])]"
    by (simp add: no_childless_def)
  from h1 h2 h3 C5_import_export_roundtrip [OF h1 h2 h3] show ?thesis by blast
qed

text \<open>
  C6. No service node without a child. If no service of the tree is childless, then none
  is after \<open>add_username\<close>, after \<open>del_username\<close> (the spec's \<open>remove_username\<close>) or after
  \<open>set_tree\<close>: \<open>add_username\<close> gives a new service its username, and \<open>del_username\<close>
  deletes the service that it leaves without children. From the tree \<open>{"svc": ["u1"]}\<close>,
  removing \<open>("svc", "u1")\<close> gives the empty tree.
\<close>

theorem C6_no_childless_preserved:
  "no_childless t \<Longrightarrow>
   no_childless (add_username t s u) \<and>
   no_childless (del_username t s u) \<and>
   no_childless (set_tree t doc) \<and>
   del_username [(''svc'', [''u1''])] ''svc'' ''u1'' = []"
  by (simp add: no_childless_add_username no_childless_del_username no_childless_set_tree
      del_username_Cons)

theorem C6_no_childless_preserved_witness:
  "no_childless [(''svc'', [''u1''])] \<and>
   no_childless (add_username [(''svc'', [''u1''])] ''svc'' ''u1'') \<and>
   no_childless (del_username [(''svc'', [''u1''])] ''svc'' ''u1'') \<and>
   no_childless (set_tree [(''svc'', [''u1''])] [(''mail'', [''bob'']), (''web'', [])]) \<and>
   del_username [(''svc'', [''u1''])] ''svc'' ''u1'' = []"
proof -
  have h: "no_childless [(''svc'', [''u1''])]"
    by (simp add: no_childless_def)
  from h C6_no_childless_preserved [OF h, of "''svc''" "''u1''"
      "[(''mail'', [''bob'']), (''web'', [])]"]
  show ?thesis by blast
qed

text \<open>
  C7. Labels stay unique up to case. If the service labels of the tree are pairwise
  different up to case, and so are the username labels within each service, then the same
  holds after \<open>add_username\<close>, after \<open>del_username\<close> and after \<open>set_tree\<close>. Adding
  \<open>("Mail", "bob")\<close> and then \<open>("mail", "BOB")\<close> to the empty tree gives one service with
  one username, in the casing of the first insertion.
\<close>

theorem C7_case_insensitive_unique_preserved:
  "unique_services t \<and> unique_usernames t \<Longrightarrow>
   unique_services (add_username t s u) \<and> unique_usernames (add_username t s u) \<and>
   unique_services (del_username t s u) \<and> unique_usernames (del_username t s u) \<and>
   unique_services (set_tree t doc) \<and> unique_usernames (set_tree t doc) \<and>
   add_username (add_username [] ''Mail'' ''bob'') ''mail'' ''BOB'' = [(''Mail'', [''bob''])]"
proof -
  assume inv: "unique_services t \<and> unique_usernames t"
  have ex: "add_username (add_username [] ''Mail'' ''bob'') ''mail'' ''BOB'' = [(''Mail'', [''bob''])]"
    by (simp add: add_username_Nil add_username_Cons lower_def lower_char_def)
  from inv ex unique_set_tree [OF inv, of doc] show ?thesis
    by (simp add: unique_services_add_username unique_usernames_add_username
        unique_services_del_username unique_usernames_del_username)
qed

theorem C7_case_insensitive_unique_preserved_witness:
  "(unique_services [(''Mail'', [''bob''])] \<and> unique_usernames [(''Mail'', [''bob''])]) \<and>
   unique_services (add_username [(''Mail'', [''bob''])] ''mail'' ''BOB'') \<and>
   unique_usernames (add_username [(''Mail'', [''bob''])] ''mail'' ''BOB'') \<and>
   unique_services (del_username [(''Mail'', [''bob''])] ''mail'' ''BOB'') \<and>
   unique_usernames (del_username [(''Mail'', [''bob''])] ''mail'' ''BOB'') \<and>
   unique_services (set_tree [(''Mail'', [''bob''])] [(''MAIL'', [''Bob'', ''carol''])]) \<and>
   unique_usernames (set_tree [(''Mail'', [''bob''])] [(''MAIL'', [''Bob'', ''carol''])]) \<and>
   add_username (add_username [] ''Mail'' ''bob'') ''mail'' ''BOB'' = [(''Mail'', [''bob''])]"
proof -
  have h: "unique_services [(''Mail'', [''bob''])] \<and> unique_usernames [(''Mail'', [''bob''])]"
    by (simp add: unique_services_def unique_usernames_def)
  from h C7_case_insensitive_unique_preserved [OF h, of "''mail''" "''BOB''"
      "[(''MAIL'', [''Bob'', ''carol''])]"]
  show ?thesis by blast
qed


section \<open>The account operations\<close>

lemmas account_defs =
  get_password_def set_password_def del_password_def del_password_try_def
  del_password_finally_def keyring_get_password_def keyring_set_password_def
  keyring_delete_password_def add_account_def del_account_def set_cache_def
  show_info_def show_warning_def Let_def

text \<open>
  C1. Save, then fetch. From any state whose service, username and password fields are
  all non-empty, \<open>set_password\<close> (save) followed at once by \<open>get_password\<close> (fetch) leaves
  the saved password in the password field and on the clipboard, and the entry
  \<open>(service, username)\<close> is in the tree.
\<close>

theorem C1_save_then_fetch:
  "var_service s \<noteq> [] \<Longrightarrow> var_username s \<noteq> [] \<Longrightarrow> var_password s \<noteq> [] \<Longrightarrow>
   var_password (get_password (set_password s)) = var_password s \<and>
   clipboard (get_password (set_password s)) = Some (var_password s) \<and>
   has_account (tree (get_password (set_password s))) (var_service s) (var_username s)"
  by (simp add: account_defs has_account_add_username_iff)

theorem C1_save_then_fetch_witness:
  "(var_service typed_state \<noteq> [] \<and> var_username typed_state \<noteq> [] \<and>
    var_password typed_state \<noteq> []) \<and>
   var_password (get_password (set_password typed_state)) = ''p1'' \<and>
   clipboard (get_password (set_password typed_state)) = Some ''p1'' \<and>
   has_account (tree (get_password (set_password typed_state))) ''svc'' ''u1''"
proof -
  have h1: "var_service typed_state \<noteq> []" by (simp add: initial_state_def typed_state_def)
  have h2: "var_username typed_state \<noteq> []" by (simp add: initial_state_def typed_state_def)
  have h3: "var_password typed_state \<noteq> []" by (simp add: initial_state_def typed_state_def)
  have v: "var_service typed_state = ''svc''" "var_username typed_state = ''u1''"
    "var_password typed_state = ''p1''"
    by (simp_all add: initial_state_def typed_state_def)
  from h1 h2 h3 C1_save_then_fetch [OF h1 h2 h3] show ?thesis
    unfolding v by blast
qed

text \<open>
  C2. Delete always cleans up. From any state whose service and username fields are
  non-empty and whose tree has its service labels unique up to case (as every tree built
  by the operations has), \<open>del_password\<close> (delete) ends with the entry
  \<open>(service, username)\<close> gone from the tree and every other entry as it was, the cache
  file rewritten with the exported tree, and the service, username and password fields
  empty. The theorem holds for every keyring, so both when the secret was there and
  deleted and when the keyring raised \<^verbatim>\<open>PasswordDeleteError\<close>.
\<close>

theorem C2_delete_always_cleans_up:
  "var_service s \<noteq> [] \<Longrightarrow> var_username s \<noteq> [] \<Longrightarrow> unique_services (tree s) \<Longrightarrow>
   \<not> has_account (tree (del_password s)) (var_service s) (var_username s) \<and>
   (\<forall>s' u'. has_account (tree (del_password s)) s' u' =
       (has_account (tree s) s' u' \<and>
        \<not> (lower s' = lower (var_service s) \<and> lower u' = lower (var_username s)))) \<and>
   keyring_calls (del_password s) =
     keyring_calls s @ [DeletePassword (var_service s) (var_username s)] \<and>
   cache_file (del_password s) = Some (get_tree (tree (del_password s))) \<and>
   cache_writes (del_password s) = cache_writes s @ [get_tree (tree (del_password s))] \<and>
   var_service (del_password s) = '''' \<and>
   var_username (del_password s) = '''' \<and>
   var_password (del_password s) = ''''"
  by (auto simp: account_defs has_account_del_username_iff split: option.splits)

theorem C2_delete_always_cleans_up_witness:
  "(var_service stale_state \<noteq> [] \<and> var_username stale_state \<noteq> [] \<and>
    unique_services (tree stale_state)) \<and>
   fst (keyring_delete_password stale_state ''svc'' ''u1'') = Some PasswordDeleteError \<and>
   \<not> has_account (tree (del_password stale_state)) ''svc'' ''u1'' \<and>
   cache_file (del_password stale_state) = Some (get_tree (tree (del_password stale_state))) \<and>
   var_service (del_password stale_state) = '''' \<and>
   var_username (del_password stale_state) = '''' \<and>
   var_password (del_password stale_state) = ''''"
proof -
  have h1: "var_service stale_state \<noteq> []" by (simp add: initial_state_def stale_state_def)
  have h2: "var_username stale_state \<noteq> []" by (simp add: initial_state_def stale_state_def)
  have h3: "unique_services (tree stale_state)" by (simp add: initial_state_def stale_state_def unique_services_def)
  have v: "var_service stale_state = ''svc''" "var_username stale_state = ''u1''"
    by (simp_all add: initial_state_def stale_state_def)
  have e: "fst (keyring_delete_password stale_state ''svc'' ''u1'') = Some PasswordDeleteError"
    by (simp add: initial_state_def stale_state_def keyring_delete_password_def)
  from h1 h2 h3 e C2_delete_always_cleans_up [OF h1 h2 h3] show ?thesis
    unfolding v by blast
qed

text \<open>
  C3, as amended. From any state whose service field or username field is empty,
  \<open>get_password\<close> (fetch) clears the password field, sets the notification to the warning
  "Service and username cannot be empty!", and changes nothing else: the keyring is not
  called, and the tree, the cache file, the clipboard and the service and username fields
  are as before. The password field is cleared because \<^verbatim>\<open>del self.password\<close> is the first
  statement of the method, before the test of the two fields.
\<close>

theorem C3_fetch_guard_clears_password_only:
  "var_service s = [] \<or> var_username s = [] \<Longrightarrow>
   get_password s =
     s\<lparr>var_password := '''',
       var_notification := ''[WARNING]: '' @ ''Service and username cannot be empty!''\<rparr>"
  by (auto simp: account_defs)

theorem C3_fetch_guard_clears_password_only_witness:
  "(var_service (initial_state\<lparr>var_password := ''p1''\<rparr>) = [] \<or>
    var_username (initial_state\<lparr>var_password := ''p1''\<rparr>) = []) \<and>
   get_password (initial_state\<lparr>var_password := ''p1''\<rparr>) =
     initial_state\<lparr>var_password := ''p1''\<rparr>
       \<lparr>var_password := '''',
        var_notification := ''[WARNING]: '' @ ''Service and username cannot be empty!''\<rparr>"
proof -
  have h: "var_service (initial_state\<lparr>var_password := ''p1''\<rparr>) = [] \<or>
    var_username (initial_state\<lparr>var_password := ''p1''\<rparr>) = []"
    by (simp add: initial_state_def)
  from h C3_fetch_guard_clears_password_only [OF h] show ?thesis by blast
qed

text \<open>
  C3, as stated, fails: with the service field empty and \<open>"p1"\<close> in the password field,
  fetch does not leave the password field unchanged.
\<close>

theorem C3_fetch_guard_password_counterexample:
  "var_service (initial_state\<lparr>var_password := ''p1''\<rparr>) = [] \<and>
   var_password (initial_state\<lparr>var_password := ''p1''\<rparr>) = ''p1'' \<and>
   var_password (get_password (initial_state\<lparr>var_password := ''p1''\<rparr>)) = [] \<and>
   var_password (get_password (initial_state\<lparr>var_password := ''p1''\<rparr>)) \<noteq>
     var_password (initial_state\<lparr>var_password := ''p1''\<rparr>)"
  by (simp add: initial_state_def account_defs)

text \<open>
  C4. Fetch of a secret that is not there. From any state whose service and username
  fields are non-empty, whose keyring holds no secret for them and whose tree has its
  service labels unique up to case, \<open>get_password\<close> (fetch) ends with the entry
  \<open>(service, username)\<close> gone from the tree and every other entry as it was, with no
  childless service if there was none before, the cache file overwritten with the whole
  exported tree, the password field empty and the notification the warning "Password not
  found!". From the tree \<open>{"svc": ["u1"]}\<close> with the fields \<open>"svc"\<close> and \<open>"u1"\<close>, the tree
  and the cache file both end as \<open>{}\<close>.
\<close>

theorem C4_fetch_not_found_reconciles:
  "var_service s \<noteq> [] \<Longrightarrow> var_username s \<noteq> [] \<Longrightarrow>
   keyring s (var_service s, var_username s) = None \<Longrightarrow> unique_services (tree s) \<Longrightarrow>
   \<not> has_account (tree (get_password s)) (var_service s) (var_username s) \<and>
   (\<forall>s' u'. has_account (tree (get_password s)) s' u' =
       (has_account (tree s) s' u' \<and>
        \<not> (lower s' = lower (var_service s) \<and> lower u' = lower (var_username s)))) \<and>
   (no_childless (tree s) \<longrightarrow> no_childless (tree (get_password s))) \<and>
   cache_file (get_password s) = Some (get_tree (tree (get_password s))) \<and>
   cache_writes (get_password s) = cache_writes s @ [get_tree (tree (get_password s))] \<and>
   var_password (get_password s) = '''' \<and>
   var_notification (get_password s) = ''[WARNING]: '' @ ''Password not found!'' \<and>
   (tree s = [(''svc'', [''u1''])] \<and> var_service s = ''svc'' \<and> var_username s = ''u1'' \<longrightarrow>
      tree (get_password s) = [] \<and> cache_file (get_password s) = Some [])"
  by (auto simp: account_defs has_account_del_username_iff no_childless_del_username
      del_username_Cons get_tree_def)

theorem C4_fetch_not_found_reconciles_witness:
  "(var_service stale_state \<noteq> [] \<and> var_username stale_state \<noteq> [] \<and>
    keyring stale_state (var_service stale_state, var_username stale_state) = None \<and>
    unique_services (tree stale_state)) \<and>
   (tree stale_state = [(''svc'', [''u1''])] \<and> var_service stale_state = ''svc'' \<and>
    var_username stale_state = ''u1'') \<and>
   tree (get_password stale_state) = [] \<and>
   cache_file (get_password stale_state) = Some [] \<and>
   var_password (get_password stale_state) = '''' \<and>
   var_notification (get_password stale_state) = ''[WARNING]: '' @ ''Password not found!''"
proof -
  have h1: "var_service stale_state \<noteq> []" by (simp add: initial_state_def stale_state_def)
  have h2: "var_username stale_state \<noteq> []" by (simp add: initial_state_def stale_state_def)
  have h3: "keyring stale_state (var_service stale_state, var_username stale_state) = None"
    by (simp add: initial_state_def stale_state_def)
  have h4: "unique_services (tree stale_state)" by (simp add: initial_state_def stale_state_def unique_services_def)
  have v: "tree stale_state = [(''svc'', [''u1''])]" "var_service stale_state = ''svc''"
    "var_username stale_state = ''u1''"
    by (simp_all add: initial_state_def stale_state_def)
  from h1 h2 h3 h4 v C4_fetch_not_found_reconciles [OF h1 h2 h3 h4] show ?thesis
    by blast
qed

text \<open>
  C8, as amended. From any state in which the service, username or password field is
  empty, \<open>set_password\<close> (save) changes nothing but the notification: the keyring is not
  called and keeps its secrets, the tree, the cache file and the three fields are as
  before. The notification is set to the string
  "[WARNING]: Service, username and password cannot be empty!": the tag that
  \<^verbatim>\<open>show_warning\<close> puts in front of every warning, followed by the message.
\<close>

theorem C8_save_guard:
  "var_service s = [] \<or> var_username s = [] \<or> var_password s = [] \<Longrightarrow>
   set_password s =
     s\<lparr>var_notification :=
         ''[WARNING]: '' @ ''Service, username and password cannot be empty!''\<rparr>"
  by (auto simp: account_defs)

theorem C8_save_guard_witness:
  "(var_service (typed_state\<lparr>var_username := ''''\<rparr>) = [] \<or>
    var_username (typed_state\<lparr>var_username := ''''\<rparr>) = [] \<or>
    var_password (typed_state\<lparr>var_username := ''''\<rparr>) = []) \<and>
   set_password (typed_state\<lparr>var_username := ''''\<rparr>) =
     typed_state\<lparr>var_username := ''''\<rparr>
       \<lparr>var_notification :=
          ''[WARNING]: '' @ ''Service, username and password cannot be empty!''\<rparr>"
proof -
  have h: "var_service (typed_state\<lparr>var_username := ''''\<rparr>) = [] \<or>
    var_username (typed_state\<lparr>var_username := ''''\<rparr>) = [] \<or>
    var_password (typed_state\<lparr>var_username := ''''\<rparr>) = []"
    by (simp add: initial_state_def typed_state_def)
  from h C8_save_guard [OF h] show ?thesis by blast
qed

text \<open>
  C8, as stated, fails: with the username field empty, the notification after save is not
  the bare message "Service, username and password cannot be empty!"; it is that message
  behind the tag \<^verbatim>\<open>[WARNING]: \<close>.
\<close>

theorem C8_save_guard_notification_counterexample:
  "var_username (typed_state\<lparr>var_username := ''''\<rparr>) = [] \<and>
   var_notification (set_password (typed_state\<lparr>var_username := ''''\<rparr>)) \<noteq>
     ''Service, username and password cannot be empty!'' \<and>
   var_notification (set_password (typed_state\<lparr>var_username := ''''\<rparr>)) =
     ''[WARNING]: Service, username and password cannot be empty!''"
  by (simp add: initial_state_def typed_state_def set_password_def show_warning_def)

text \<open>
  C10. The message of a successful delete. From any state whose service and username
  fields are non-empty and for which the keyring's delete succeeds, the \<^verbatim>\<open>try\<close>
  statement of \<open>del_password\<close> sets the notification to
  "[INFO]: Password deleted from keyring." before the \<^verbatim>\<open>finally\<close> block runs, and that is
  still the notification when \<open>del_password\<close> returns.
\<close>

theorem C10_delete_success_message:
  "var_service s \<noteq> [] \<Longrightarrow> var_username s \<noteq> [] \<Longrightarrow>
   fst (keyring_delete_password s (var_service s) (var_username s)) = None \<Longrightarrow>
   var_notification (del_password_try s) = ''[INFO]: Password deleted from keyring.'' \<and>
   del_password s = del_password_finally (del_password_try s) \<and>
   var_notification (del_password s) = ''[INFO]: Password deleted from keyring.''"
  by (auto simp: account_defs split: option.splits)

theorem C10_delete_success_message_witness:
  "(var_service (set_password typed_state) \<noteq> [] \<and>
    var_username (set_password typed_state) \<noteq> [] \<and>
    fst (keyring_delete_password (set_password typed_state)
           (var_service (set_password typed_state))
           (var_username (set_password typed_state))) = None) \<and>
   var_notification (del_password_try (set_password typed_state)) =
     ''[INFO]: Password deleted from keyring.'' \<and>
   del_password (set_password typed_state) =
     del_password_finally (del_password_try (set_password typed_state)) \<and>
   var_notification (del_password (set_password typed_state)) =
     ''[INFO]: Password deleted from keyring.''"
proof -
  have h1: "var_service (set_password typed_state) \<noteq> []"
    by (simp add: initial_state_def typed_state_def account_defs)
  have h2: "var_username (set_password typed_state) \<noteq> []"
    by (simp add: initial_state_def typed_state_def account_defs)
  have h3: "fst (keyring_delete_password (set_password typed_state)
                   (var_service (set_password typed_state))
                   (var_username (set_password typed_state))) = None"
    by (simp add: initial_state_def typed_state_def account_defs)
  from h1 h2 h3 C10_delete_success_message [OF h1 h2 h3] show ?thesis by blast
qed

section \<open>The shared dictionary\<close>

lemma setattr_proj:
  "obj_dict (setattr h self n v) = obj_dict h"
  "next_addr (setattr h self n v) = next_addr h"
  "strvar (setattr h self n v) = strvar h"
  by (simp_all add: setattr_def split: option.splits)

lemma dict_store_setattr:
  "obj_dict h self = Some d \<Longrightarrow>
   dict_store (setattr h self n v) = (dict_store h)(d := (dict_store h d)(n \<mapsto> v))"
  by (simp add: setattr_def)

lemma new_strvar_proj:
  "fst (new_strvar h) = next_addr h"
  "obj_dict (snd (new_strvar h)) = obj_dict h"
  "dict_store (snd (new_strvar h)) = dict_store h"
  "next_addr (snd (new_strvar h)) = Suc (next_addr h)"
  by (simp_all add: new_strvar_def)

lemma new_object_proj:
  "fst (new_object h) = next_addr h"
  "obj_dict (snd (new_object h)) = (obj_dict h)(next_addr h \<mapsto> Suc (next_addr h))"
  "dict_store (snd (new_object h)) = (dict_store h)(Suc (next_addr h) := Map.empty)"
  "next_addr (snd (new_object h)) = Suc (Suc (next_addr h))"
  by (simp_all add: new_object_def Let_def)

lemma construct_proj:
  "fst (construct h) = next_addr h"
  "obj_dict (snd (construct h)) = (obj_dict h)(next_addr h \<mapsto> shared)"
  "next_addr (snd (construct h)) = Suc (Suc (next_addr h))"
  by (simp_all add: construct_def new_object_def SharedState_init_def Let_def)

lemma Variables_init_proj:
  "fst (Variables_init h m) = next_addr h"
  "obj_dict (snd (Variables_init h m)) = (obj_dict h)(next_addr h \<mapsto> Suc (next_addr h))"
  "next_addr (snd (Variables_init h m)) = Suc (Suc (Suc (Suc (Suc (Suc (next_addr h))))))"
  by (simp_all add: Variables_init_def split_def setattr_proj new_strvar_proj new_object_proj)

lemma Variables_init_service:
  "next_addr h = n \<Longrightarrow>
   dict_store (snd (Variables_init h m)) (Suc n) ''service'' = Some (Suc (Suc n))"
  by (auto simp: Variables_init_def split_def setattr_proj new_strvar_proj new_object_proj
      dict_store_setattr)

lemma KeyVault_init_proj:
  "fst (KeyVault_init h m) = next_addr h"
  "obj_dict (snd (KeyVault_init h m)) =
     (obj_dict h)(next_addr h \<mapsto> shared, Suc (Suc (next_addr h)) \<mapsto> Suc (Suc (Suc (next_addr h))))"
  "next_addr (snd (KeyVault_init h m)) = next_addr h + 8"
  by (simp_all add: KeyVault_init_def split_def setattr_proj construct_proj Variables_init_proj)


lemma construct_dict_store:
  "shared < next_addr h \<Longrightarrow>
   dict_store (snd (construct h)) = (dict_store h)(Suc (next_addr h) := Map.empty)"
  by (auto simp: construct_def new_object_def SharedState_init_def Let_def fun_eq_iff)

lemma KeyVault_init_variables:
  assumes "shared < next_addr h"
  shows "dict_store (snd (KeyVault_init h m)) shared ''variables'' = Some (Suc (Suc (next_addr h)))"
    and "dict_store (snd (KeyVault_init h m)) (Suc (Suc (Suc (next_addr h)))) ''service'' =
           Some (Suc (Suc (Suc (Suc (next_addr h)))))"
proof -
  let ?h1 = "setattr (snd (construct h)) (next_addr h) ''root'' m"
  let ?v = "snd (Variables_init ?h1 m)"
  have n: "next_addr ?h1 = Suc (Suc (next_addr h))"
    by (simp add: setattr_proj construct_proj)
  have K: "snd (KeyVault_init h m) = setattr ?v (next_addr h) ''variables'' (Suc (Suc (next_addr h)))"
    by (simp add: KeyVault_init_def split_def construct_proj Variables_init_proj setattr_proj)
  have o: "obj_dict ?v (next_addr h) = Some shared"
    by (simp add: Variables_init_proj setattr_proj construct_proj)
  have D: "dict_store (snd (KeyVault_init h m)) =
             (dict_store ?v)(shared := (dict_store ?v shared)(''variables'' \<mapsto> Suc (Suc (next_addr h))))"
    unfolding K by (rule dict_store_setattr [OF o])
  show "dict_store (snd (KeyVault_init h m)) shared ''variables'' = Some (Suc (Suc (next_addr h)))"
    unfolding D by simp
  have "Suc (Suc (Suc (next_addr h))) \<noteq> shared" using assms by simp
  then show "dict_store (snd (KeyVault_init h m)) (Suc (Suc (Suc (next_addr h)))) ''service'' =
           Some (Suc (Suc (Suc (Suc (next_addr h)))))"
    unfolding D using Variables_init_service [OF n, of m] by simp
qed

text \<open>
  C9. One shared state. Take any store in which the shared dictionary is allocated and a
  holder \<open>a\<close> is initialised, and construct a holder \<open>b\<close> the way every constructor of
  the source does. Then both are initialised, in whichever order they were made; the
  construction of \<open>b\<close> changes no field of the shared dictionary, so the fields \<open>a\<close> had
  are the fields \<open>b\<close> now reads; reading or writing an attribute (the tree handle, the
  cache) or a variable (service, username, password, notification) through \<open>b\<close> is the
  same operation as through \<open>a\<close>; and a value written through one is the value read
  through the other.
\<close>

theorem C9_one_shared_state:
  assumes wf: "shared < next_addr h"
      and a: "initialized h a"
      and c: "construct h = (b, h')"
  shows "initialized h' a \<and> initialized h' b \<and>
         dict_store h' shared = dict_store h shared \<and>
         getattr h' a = getattr h a \<and>
         getattr h' b = getattr h' a \<and>
         setattr h' b = setattr h' a \<and>
         get_var h' b = get_var h' a \<and>
         set_var h' b = set_var h' a \<and>
         (\<forall>n v. getattr (setattr h' a n v) b n = Some v \<and>
                getattr (setattr h' b n v) a n = Some v) \<and>
         (\<forall>n x h''. set_var h' a n x = Some h'' \<longrightarrow> get_var h'' b n = Some x) \<and>
         (\<forall>n x h''. set_var h' b n x = Some h'' \<longrightarrow> get_var h'' a n = Some x)"
proof -
  from c have h': "h' = SharedState_init (snd (new_object h)) b" and b: "b = next_addr h"
    by (auto simp: construct_def new_object_def Let_def)
  from wf have d: "Suc (next_addr h) \<noteq> shared" by simp
  have ia: "obj_dict h' a = Some shared"
    using a by (simp add: h' b initialized_def SharedState_init_def new_object_def Let_def)
  have ib: "obj_dict h' b = Some shared"
    by (simp add: h' b SharedState_init_def new_object_def Let_def)
  have sh: "dict_store h' shared = dict_store h shared"
    using d by (simp add: h' b SharedState_init_def new_object_def Let_def)
  have ga: "getattr h' a = getattr h a"
    using a ia sh by (auto simp: getattr_def initialized_def fun_eq_iff)
  have gb: "getattr h' b = getattr h' a"
    using ia ib by (simp add: getattr_def fun_eq_iff)
  have sb: "setattr h' b = setattr h' a"
    using ia ib by (simp add: setattr_def fun_eq_iff)
  have gv: "get_var h' b = get_var h' a"
    using gb by (simp add: get_var_def fun_eq_iff)
  have sv: "set_var h' b = set_var h' a"
    using gb by (simp add: set_var_def fun_eq_iff)
  have mut: "\<forall>n v. getattr (setattr h' a n v) b n = Some v \<and>
                getattr (setattr h' b n v) a n = Some v"
    using ia ib by (simp add: getattr_def setattr_def)
  have vab: "\<forall>n x h''. set_var h' a n x = Some h'' \<longrightarrow> get_var h'' b n = Some x"
    using ia ib by (auto simp: set_var_def get_var_def getattr_def split: option.splits)
  have vba: "\<forall>n x h''. set_var h' b n x = Some h'' \<longrightarrow> get_var h'' a n = Some x"
    using ia ib by (auto simp: set_var_def get_var_def getattr_def split: option.splits)
  from ia ib sh ga gb sb gv sv mut vab vba show ?thesis
    by (simp add: initialized_def)
qed



theorem C9_one_shared_state_witness:
  "(let r = new_object initial_heap;
        k = KeyVault_init (snd r) (fst r);
        t = construct (snd k);
        h = snd k; a = fst k; b = fst t; h' = snd t
    in (shared < next_addr h \<and> initialized h a \<and> construct h = (b, h')) \<and>
       (initialized h' a \<and> initialized h' b \<and>
         dict_store h' shared = dict_store h shared \<and>
         getattr h' a = getattr h a \<and>
         getattr h' b = getattr h' a \<and>
         setattr h' b = setattr h' a \<and>
         get_var h' b = get_var h' a \<and>
         set_var h' b = set_var h' a \<and>
         (\<forall>n v. getattr (setattr h' a n v) b n = Some v \<and>
                getattr (setattr h' b n v) a n = Some v) \<and>
         (\<forall>n x h''. set_var h' a n x = Some h'' \<longrightarrow> get_var h'' b n = Some x) \<and>
         (\<forall>n x h''. set_var h' b n x = Some h'' \<longrightarrow> get_var h'' a n = Some x)) \<and>
       a \<noteq> b \<and> set_var h' a ''service'' ''svc'' \<noteq> None)"
proof -
  define h0 where "h0 = snd (new_object initial_heap)"
  define k where "k = KeyVault_init h0 (fst (new_object initial_heap))"
  have wf0: "shared < next_addr h0"
    by (simp add: h0_def new_object_proj initial_heap_def)
  have wf: "shared < next_addr (snd k)"
    using wf0 by (simp add: k_def KeyVault_init_proj)
  have ia: "initialized (snd k) (fst k)"
    by (simp add: k_def initialized_def KeyVault_init_proj)
  have c: "construct (snd k) = (fst (construct (snd k)), snd (construct (snd k)))"
    by simp
  have ne: "fst k \<noteq> fst (construct (snd k))"
    by (simp add: k_def construct_proj KeyVault_init_proj)
  have vars: "getattr (snd k) (fst k) ''variables'' = Some (Suc (Suc (next_addr h0)))"
    using ia KeyVault_init_variables(1) [OF wf0]
    by (simp add: getattr_def initialized_def k_def)
  have od: "obj_dict (snd (construct (snd k))) (Suc (Suc (next_addr h0))) =
              Some (Suc (Suc (Suc (next_addr h0))))"
    by (simp add: construct_proj k_def KeyVault_init_proj)
  have ds: "dict_store (snd (construct (snd k))) (Suc (Suc (Suc (next_addr h0)))) ''service'' =
              Some (Suc (Suc (Suc (Suc (next_addr h0)))))"
    using wf KeyVault_init_variables(2) [OF wf0]
    by (simp add: construct_dict_store k_def KeyVault_init_proj)
  note main = C9_one_shared_state [OF wf ia c]
  from main have "getattr (snd (construct (snd k))) (fst k) = getattr (snd k) (fst k)"
    by blast
  with vars od ds have sv: "set_var (snd (construct (snd k))) (fst k) ''service'' ''svc'' \<noteq> None"
    by (simp add: set_var_def getattr_def)
  from wf ia c main ne sv show ?thesis
    unfolding Let_def k_def h0_def by blast
qed

end
